theory Spec2Isabelle
  imports Complex_Main "HOL-Library.Multiset"
begin

section \<open>Tables\<close>

text \<open>
  A pandas data frame is modelled by its column labels and its rows. A cell is an integer
  (dtype int64), a float (float64, given by the real number it stands for: the only
  arithmetic the notebook does on a float is the multiplication by \<open>1.0\<close>, which is
  exact), the missing value \<open>NaN\<close>, or a string (dtype object). A column
  label is a name, as the header of a CSV file gives it, or a position, as a table built
  from a list of rows gets it. The row index is not stored:
  every table built by the notebooks carries the default index \<open>0..n-1\<close>
  (\<open>read_csv\<close>, \<open>pd.DataFrame(list)\<close>, \<open>pd.concat(..., ignore_index=True)\<close>).
\<close>

datatype cell = IntC int | FloatC real | NaN | StrC string

datatype label = Name string | Pos nat

datatype error = TypeError | ValueError

record frame =
  columns :: "label list"
  rows :: "cell list list"

definition shape :: "frame \<Rightarrow> nat \<times> nat" where
  "shape df = (length (rows df), length (columns df))"

text \<open>\<open>pd.read_csv\<close> on the payload of the URL, parsed into its header line and its
  rows of cells: the header line gives the column names.\<close>

definition read_csv :: "string list \<times> cell list list \<Rightarrow> frame" where
  "read_csv payload = \<lparr>columns = map Name (fst payload), rows = snd payload\<rparr>"

text \<open>A frame is well formed when its labels are distinct and every row has one cell
  for each column.\<close>

definition wf_frame :: "frame \<Rightarrow> bool" where
  "wf_frame df \<longleftrightarrow>
     distinct (columns df) \<and> list_all (\<lambda>r. length r = length (columns df)) (rows df)"


fun is_numeric :: "cell \<Rightarrow> bool" where
  "is_numeric (StrC s) = False"
| "is_numeric c = True"

definition numeric_frame :: "frame \<Rightarrow> bool" where
  "numeric_frame df \<longleftrightarrow> list_all (list_all is_numeric) (rows df)"

text \<open>The number a cell stands for, if any.\<close>

fun cell_value :: "cell \<Rightarrow> real option" where
  "cell_value (IntC i) = Some (real_of_int i)"
| "cell_value (FloatC v) = Some v"
| "cell_value NaN = None"
| "cell_value (StrC s) = None"

section \<open>The job transformation\<close>

text \<open>
  The conversion of an int64 to float64, which \<open>df * 1.0\<close> does on an integer column:
  the nearest number with a significand of 53 bits, a tie going to the even significand.
  \<open>excess_bits a\<close> is the number of low bits of \<open>a\<close> that do not fit. (An int64 is
  below \<open>2^63\<close> in absolute value, far from the overflow of float64.)
\<close>

function excess_bits :: "nat \<Rightarrow> nat" where
  "excess_bits a = (if a < 2 ^ 53 then 0 else Suc (excess_bits (a div 2)))"
  by pat_completeness auto
termination
  by (relation "measure id") auto

declare excess_bits.simps [simp del]

definition float64_of_int :: "int \<Rightarrow> real" where
  "float64_of_int i =
     (let a = nat \<bar>i\<bar>;
          e = excess_bits a;
          q = a div 2 ^ e;
          r = a mod 2 ^ e;
          m = (if 2 ^ e < 2 * r \<or> (2 * r = 2 ^ e \<and> odd q) then q + 1 else q)
      in real_of_int (sgn i) * real (m * 2 ^ e))"

text \<open>
  \<open>df * 1.0\<close>: every cell is multiplied by the float. An integer cell is converted to
  float64 first, \<open>NaN\<close> stays \<open>NaN\<close>, and a string cell makes the whole operation
  raise \<open>TypeError\<close>. The product is written in the reals: it is the float64 product
  for the multiplier \<open>1.0\<close>, the only one of the notebook.
\<close>

fun cell_mul :: "cell \<Rightarrow> real \<Rightarrow> error + cell" where
  "cell_mul (IntC i) x = Inr (FloatC (float64_of_int i * x))"
| "cell_mul (FloatC v) x = Inr (FloatC (v * x))"
| "cell_mul NaN x = Inr NaN"
| "cell_mul (StrC s) x = Inl TypeError"

fun map_err :: "('a \<Rightarrow> error + 'b) \<Rightarrow> 'a list \<Rightarrow> error + 'b list" where
  "map_err f [] = Inr []"
| "map_err f (x # xs) =
     (case f x of
        Inl e \<Rightarrow> Inl e
      | Inr y \<Rightarrow> (case map_err f xs of Inl e \<Rightarrow> Inl e | Inr ys \<Rightarrow> Inr (y # ys)))"

definition df_mul :: "frame \<Rightarrow> real \<Rightarrow> error + frame" where
  "df_mul df x =
     (case map_err (map_err (\<lambda>c. cell_mul c x)) (rows df) of
        Inl e \<Rightarrow> Inl e
      | Inr rs \<Rightarrow> Inr (df\<lparr>rows := rs\<rparr>))"

text \<open>The loop \<open>for i in range(n): df = df * 1.0\<close>.\<close>

fun repeat_mul :: "nat \<Rightarrow> frame \<Rightarrow> error + frame" where
  "repeat_mul 0 df = Inr df"
| "repeat_mul (Suc n) df =
     (case df_mul df 1.0 of Inl e \<Rightarrow> Inl e | Inr df' \<Rightarrow> repeat_mul n df')"

definition values_tolist :: "frame \<Rightarrow> cell list list" where
  "values_tolist df = rows df"

text \<open>\<open>processData\<close> of the parallel cell returns the rows as a list of lists.\<close>

definition processData :: "frame \<Rightarrow> error + cell list list" where
  "processData df =
     (case repeat_mul 100000 df of Inl e \<Rightarrow> Inl e | Inr df' \<Rightarrow> Inr (values_tolist df'))"

text \<open>\<open>processData\<close> of the serial cell returns the frame itself.\<close>

definition processData_serial :: "frame \<Rightarrow> error + frame" where
  "processData_serial df =
     (case repeat_mul 100000 df of Inl e \<Rightarrow> Inl e | Inr df' \<Rightarrow> Inr df')"

text \<open>What one multiplication by \<open>1.0\<close> leaves in a numeric cell.\<close>

fun to_float :: "cell \<Rightarrow> cell" where
  "to_float (IntC i) = FloatC (float64_of_int i)"
| "to_float c = c"

text \<open>An integer cell is exact when float64 holds its value: up to \<open>2^53\<close> in absolute
  value every integer is.\<close>

fun exact_cell :: "cell \<Rightarrow> bool" where
  "exact_cell (IntC i) = (\<bar>i\<bar> \<le> 2 ^ 53)"
| "exact_cell c = True"

definition exact_frame :: "frame \<Rightarrow> bool" where
  "exact_frame df \<longleftrightarrow> list_all (list_all exact_cell) (rows df)"

section \<open>The parallel cell\<close>

text \<open>
  \<open>pd.DataFrame(data)\<close> on a list of rows: the columns get the default labels
  \<open>0..w-1\<close>, where \<open>w\<close> is the length of the longest row, and a shorter row is
  filled up with missing values. On the empty list the table has no row and no column.
\<close>

definition pd_DataFrame :: "cell list list \<Rightarrow> frame" where
  "pd_DataFrame data =
     (let w = foldr max (map length data) 0
      in \<lparr>columns = map Pos [0..<w],
          rows = map (\<lambda>r. r @ replicate (w - length r) NaN) data\<rparr>)"

text \<open>\<open>collect_results\<close> is \<open>results.extend(result)\<close> on the global list.\<close>

definition collect_results :: "cell list list \<Rightarrow> cell list list \<Rightarrow> cell list list" where
  "collect_results results result = results @ result"

text \<open>
  \<open>pool.apply_async(processData, args=(df,), callback=collect_results)\<close>: when the task
  is done and \<open>processData\<close> has returned, the pool calls the callback on the value;
  when it has raised, the exception is stored in the \<open>AsyncResult\<close>, which the notebook
  drops, and no \<open>error_callback\<close> is given: the global list is left as it is.
\<close>

definition on_completion :: "error + cell list list \<Rightarrow> cell list list \<Rightarrow> cell list list" where
  "on_completion outcome results =
     (case outcome of Inl e \<Rightarrow> results | Inr result \<Rightarrow> collect_results results result)"

text \<open>
  The pool. A task is a job with its submission number. The submitted tasks wait in a
  first-in first-out queue; \<open>Take\<close> is a free worker, one of \<open>k\<close>, taking the task at
  its head. Any of the running tasks may be the next to complete: \<open>Finish i\<close> is the
  completion of the \<open>i\<close>-th of them, with its callback, and the callbacks run one at a
  time in the parent process. \<open>completed\<close> is a history variable: the tasks in the
  order in which they completed.
\<close>

type_synonym task = "nat \<times> frame"

record pool =
  queue :: "task list"
  running :: "task list"
  results :: "cell list list"
  completed :: "task list"

datatype event = Take | Finish nat

fun step :: "nat \<Rightarrow> event \<Rightarrow> pool \<Rightarrow> pool option" where
  "step k Take s =
     (case queue s of
        [] \<Rightarrow> None
      | t # q \<Rightarrow>
          if length (running s) < k then Some (s\<lparr>queue := q, running := running s @ [t]\<rparr>)
          else None)"
| "step k (Finish i) s =
     (if i < length (running s)
      then Some (s\<lparr>running := take i (running s) @ drop (Suc i) (running s),
                    results := on_completion (processData (snd (running s ! i))) (results s),
                    completed := completed s @ [running s ! i]\<rparr>)
      else None)"

fun run :: "nat \<Rightarrow> event list \<Rightarrow> pool \<Rightarrow> pool option" where
  "run k [] s = Some s"
| "run k (e # es) s = (case step k e s of None \<Rightarrow> None | Some s' \<Rightarrow> run k es s')"

text \<open>The state after the loop of \<open>apply_async\<close> calls, with \<open>results = []\<close>.\<close>

definition apply_async_all :: "frame list \<Rightarrow> pool" where
  "apply_async_all jobs = \<lparr>queue = enumerate 0 jobs, running = [], results = [], completed = []\<rparr>"

text \<open>\<open>pool.close(); pool.join()\<close> returns when no task is waiting or running.\<close>

definition joined :: "pool \<Rightarrow> bool" where
  "joined s \<longleftrightarrow> queue s = [] \<and> running s = []"

text \<open>
  The parallel main block on a list of jobs, with \<open>k\<close> worker processes and the schedule
  \<open>sched\<close> of the pool. \<open>multiprocessing.Pool(processes=0)\<close> raises \<open>ValueError\<close>. The
  value is \<open>None\<close> when \<open>sched\<close> is not a schedule of a whole execution: an event of it
  is not enabled, or it stops before every task is done.
\<close>

definition submit :: "nat \<Rightarrow> event list \<Rightarrow> frame list \<Rightarrow> (error + frame) option" where
  "submit k sched jobs =
     (if k = 0 then Some (Inl ValueError)
      else case run k sched (apply_async_all jobs) of
             None \<Rightarrow> None
           | Some s \<Rightarrow> if joined s then Some (Inr (pd_DataFrame (results s))) else None)"

text \<open>The notebook's own workload: the same \<open>df\<close> ten times.\<close>

definition parallel_main :: "nat \<Rightarrow> event list \<Rightarrow> frame \<Rightarrow> (error + frame) option" where
  "parallel_main k sched df = submit k sched (replicate 10 df)"

text \<open>The schedule that takes and completes one task after the other.\<close>

definition one_by_one :: "nat \<Rightarrow> event list" where
  "one_by_one n = concat (replicate n [Take, Finish 0])"

text \<open>The result of a job: the rows that \<open>processData\<close> returns on it. A job on
  which \<open>processData\<close> raises has no result, so no row.\<close>

definition job_result :: "frame \<Rightarrow> cell list list" where
  "job_result df = (case processData df of Inl e \<Rightarrow> [] | Inr result \<Rightarrow> result)"

text \<open>
  The order of completion that a schedule gives: \<open>completions sched nxt rn\<close> follows the
  events from the point where \<open>nxt\<close> is the submission number of the task at the head of
  the queue and \<open>rn\<close> are the numbers of the running tasks, and lists the numbers of the
  tasks in the order in which the \<open>Finish\<close> events complete them.
\<close>

fun completions :: "event list \<Rightarrow> nat \<Rightarrow> nat list \<Rightarrow> nat list" where
  "completions [] nxt rn = []"
| "completions (Take # es) nxt rn = completions es (Suc nxt) (rn @ [nxt])"
| "completions (Finish i # es) nxt rn =
     (if i < length rn then rn ! i # completions es nxt (take i rn @ drop (Suc i) rn)
      else [])"

definition completion_order :: "event list \<Rightarrow> nat list" where
  "completion_order sched = completions sched 0 []"

section \<open>The serial cell\<close>

text \<open>The loop \<open>results.append(processData(df))\<close> over the jobs: an exception of
  \<open>processData\<close> ends it. \<open>res\<close> is the global list \<open>results\<close> of that cell.\<close>

fun serial_loop :: "frame list \<Rightarrow> frame list \<Rightarrow> error + frame list" where
  "serial_loop [] res = Inr res"
| "serial_loop (df # jobs) res =
     (case processData_serial df of
        Inl e \<Rightarrow> Inl e
      | Inr r \<Rightarrow> serial_loop jobs (res @ [r]))"

text \<open>
  \<open>pd.concat(objs, axis=0, ignore_index=True)\<close>: \<open>ValueError\<close> on an empty list;
  otherwise the columns are the union of the columns of the frames, in the order of their
  first occurrence, every row is aligned to them by label, a column that a frame lacks
  is filled with missing values, and the rows follow one another in the order of the list.
\<close>

definition union_labels :: "label list \<Rightarrow> label list" where
  "union_labels ls = foldl (\<lambda>acc c. if c \<in> set acc then acc else acc @ [c]) [] ls"

definition reindex :: "label list \<Rightarrow> frame \<Rightarrow> cell list list" where
  "reindex cols df =
     map (\<lambda>r. map (\<lambda>c. case map_of (zip (columns df) r) c of None \<Rightarrow> NaN | Some v \<Rightarrow> v) cols)
       (rows df)"

definition pd_concat :: "frame list \<Rightarrow> error + frame" where
  "pd_concat objs =
     (if objs = [] then Inl ValueError
      else let cols = union_labels (concat (map columns objs))
           in Inr \<lparr>columns = cols, rows = concat (map (reindex cols) objs)\<rparr>)"

text \<open>The serial main block on a list of jobs, from \<open>results = []\<close>.\<close>

definition sequential_submit :: "frame list \<Rightarrow> error + frame" where
  "sequential_submit jobs =
     (case serial_loop jobs [] of Inl e \<Rightarrow> Inl e | Inr rs \<Rightarrow> pd_concat rs)"

text \<open>
  The serial cell as a whole, on the global variables of the notebook: it loads \<open>df\<close>,
  sets \<open>results = []\<close>, runs the loop \<open>n\<close> times (ten in the notebook) on \<open>df\<close> and
  binds \<open>final\<close>.
\<close>

record notebook =
  nb_df :: frame
  nb_results :: "frame list"
  nb_final :: "frame option"

definition serial_cell :: "nat \<Rightarrow> string list \<times> cell list list \<Rightarrow> notebook \<Rightarrow> error + notebook" where
  "serial_cell n payload g =
     (let g1 = g\<lparr>nb_df := read_csv payload, nb_results := []\<rparr>
      in case serial_loop (replicate n (nb_df g1)) (nb_results g1) of
           Inl e \<Rightarrow> Inl e
         | Inr rs \<Rightarrow>
             (case pd_concat rs of
                Inl e \<Rightarrow> Inl e
              | Inr f \<Rightarrow> Inr (g1\<lparr>nb_results := rs, nb_final := Some f\<rparr>)))"

section \<open>Properties of the transformation\<close>

lemma cell_mul_one: "is_numeric c \<Longrightarrow> cell_mul c 1 = Inr (to_float c)"
  by (cases c) simp_all

lemma to_float_idem: "to_float (to_float c) = to_float c"
  by (cases c) simp_all

lemma is_numeric_to_float: "is_numeric (to_float c) = is_numeric c"
  by (cases c) simp_all

lemma excess_bits_small: "a < 2 ^ 53 \<Longrightarrow> excess_bits a = 0"
  by (simp add: excess_bits.simps)

lemma excess_bits_limit: "excess_bits 9007199254740992 = 1"
  by (subst excess_bits.simps) (simp add: excess_bits_small)

lemma float64_of_int_exact:
  assumes "\<bar>i\<bar> \<le> 2 ^ 53"
  shows "float64_of_int i = real_of_int i"
proof (cases "\<bar>i\<bar> = 2 ^ 53")
  case True
  then have a: "nat \<bar>i\<bar> = 2 ^ 53" by (simp add: nat_eq_iff)
  have "real_of_int (sgn i) * real_of_int \<bar>i\<bar> = real_of_int i"
    by (metis mult_sgn_abs of_int_mult)
  then show ?thesis
    using True by (simp add: float64_of_int_def a excess_bits_limit Let_def)
next
  case False
  with assms have "nat \<bar>i\<bar> < 2 ^ 53" by (simp add: nat_less_iff)
  then have e: "excess_bits (nat \<bar>i\<bar>) = 0" by (rule excess_bits_small)
  have "real_of_int (sgn i) * real_of_int \<bar>i\<bar> = real_of_int i"
    by (metis mult_sgn_abs of_int_mult)
  then show ?thesis
    by (simp add: float64_of_int_def e Let_def)
qed

lemma float64_of_int_rounds: "float64_of_int 9007199254740993 = 9007199254740992"
proof -
  have "excess_bits 9007199254740993 = Suc (excess_bits 4503599627370496)"
    by (subst excess_bits.simps) simp
  also have "excess_bits 4503599627370496 = 0"
    by (rule excess_bits_small) simp
  finally have e: "excess_bits 9007199254740993 = 1" by simp
  show ?thesis by (simp add: float64_of_int_def e Let_def)
qed

lemma to_float_small: "\<bar>i\<bar> \<le> 2 ^ 53 \<Longrightarrow> to_float (IntC i) = FloatC (real_of_int i)"
  by (simp add: float64_of_int_exact)

lemma cell_value_to_float: "exact_cell c \<Longrightarrow> cell_value (to_float c) = cell_value c"
  by (cases c) (simp_all add: float64_of_int_exact)

lemma map_err_row_numeric:
  "list_all is_numeric r \<Longrightarrow> map_err (\<lambda>c. cell_mul c 1) r = Inr (map to_float r)"
  by (induction r) (simp_all add: cell_mul_one)

lemma map_err_row_string:
  "\<not> list_all is_numeric r \<Longrightarrow> map_err (\<lambda>c. cell_mul c x) r = Inl TypeError"
proof (induction r)
  case Nil
  then show ?case by simp
next
  case (Cons c r)
  then show ?case by (cases c) (simp_all split: sum.splits)
qed

lemma map_err_row_error: "map_err (\<lambda>c. cell_mul c x) r = Inl e \<Longrightarrow> e = TypeError"
proof (induction r)
  case Nil
  then show ?case by simp
next
  case (Cons c r)
  then show ?case by (cases c) (auto split: sum.splits)
qed

lemma map_err_rows_numeric:
  "list_all (list_all is_numeric) rs \<Longrightarrow>
   map_err (map_err (\<lambda>c. cell_mul c 1)) rs = Inr (map (map to_float) rs)"
  by (induction rs) (simp_all add: map_err_row_numeric)

lemma map_err_rows_string:
  "\<not> list_all (list_all is_numeric) rs \<Longrightarrow>
   map_err (map_err (\<lambda>c. cell_mul c x)) rs = Inl TypeError"
proof (induction rs)
  case Nil
  then show ?case by simp
next
  case (Cons r rs)
  show ?case
  proof (cases "list_all is_numeric r")
    case True
    with Cons show ?thesis
      by (cases "map_err (\<lambda>c. cell_mul c x) r") (auto dest: map_err_row_error)
  next
    case False
    then show ?thesis by (simp add: map_err_row_string)
  qed
qed

lemma df_mul_numeric:
  "numeric_frame df \<Longrightarrow> df_mul df 1 = Inr (df\<lparr>rows := map (map to_float) (rows df)\<rparr>)"
  by (simp add: df_mul_def numeric_frame_def map_err_rows_numeric)

lemma df_mul_string: "\<not> numeric_frame df \<Longrightarrow> df_mul df x = Inl TypeError"
  by (simp add: df_mul_def numeric_frame_def map_err_rows_string)

lemma numeric_frame_to_float:
  "numeric_frame df \<Longrightarrow> numeric_frame (df\<lparr>rows := map (map to_float) (rows df)\<rparr>)"
  by (simp add: numeric_frame_def list_all_iff is_numeric_to_float)

lemma repeat_mul_numeric:
  "numeric_frame df \<Longrightarrow>
   repeat_mul (Suc n) df = Inr (df\<lparr>rows := map (map to_float) (rows df)\<rparr>)"
proof (induction n arbitrary: df)
  case 0
  then show ?case by (simp add: df_mul_numeric)
next
  case (Suc n)
  have "repeat_mul (Suc (Suc n)) df
        = repeat_mul (Suc n) (df\<lparr>rows := map (map to_float) (rows df)\<rparr>)"
    using Suc.prems by (simp add: df_mul_numeric)
  also have "\<dots> = Inr (df\<lparr>rows := map (map to_float) (rows df)\<rparr>)"
    using Suc.IH [OF numeric_frame_to_float [OF Suc.prems]]
    by (simp add: to_float_idem comp_def)
  finally show ?case .
qed

lemma repeat_mul_string: "\<not> numeric_frame df \<Longrightarrow> repeat_mul (Suc n) df = Inl TypeError"
  by (simp add: df_mul_string)

lemma hundred_thousand: "(100000::nat) = Suc 99999"
  by simp

lemma processData_numeric:
  "numeric_frame df \<Longrightarrow> processData df = Inr (map (map to_float) (rows df))"
  unfolding processData_def hundred_thousand
  by (simp only: repeat_mul_numeric) (simp add: values_tolist_def)

lemma processData_string:
  assumes "\<not> numeric_frame df"
  shows "processData df = Inl TypeError"
  unfolding processData_def hundred_thousand repeat_mul_string [OF assms] by simp

lemma processData_serial_numeric:
  "numeric_frame df \<Longrightarrow>
   processData_serial df = Inr (df\<lparr>rows := map (map to_float) (rows df)\<rparr>)"
  unfolding processData_serial_def hundred_thousand
  by (simp only: repeat_mul_numeric) simp

lemma processData_serial_string:
  assumes "\<not> numeric_frame df"
  shows "processData_serial df = Inl TypeError"
  unfolding processData_serial_def hundred_thousand repeat_mul_string [OF assms] by simp

text \<open>
  C8 fails on an integer that float64 does not hold: the table with the one cell
  \<open>2^53 + 1\<close> is numeric, and \<open>processData\<close> returns \<open>2^53\<close> for it.
\<close>

theorem processData_rounding_counterexample:
  "numeric_frame \<lparr>columns = [Name ''PW''], rows = [[IntC 9007199254740993]]\<rparr>
   \<and> processData \<lparr>columns = [Name ''PW''], rows = [[IntC 9007199254740993]]\<rparr>
       = Inr [[FloatC 9007199254740992]]
   \<and> cell_value (FloatC 9007199254740992) \<noteq> cell_value (IntC 9007199254740993)"
  by (simp add: processData_numeric numeric_frame_def float64_of_int_rounds)

text \<open>
  C8, amended. On every numeric table \<open>processData\<close> returns normally, and its result
  has the shape of the input: as many rows, each row as long. When every integer cell of
  the table is at most \<open>2^53\<close> in absolute value, the result has, cell by cell, the value
  of the input: the hundred thousand multiplications by \<open>1.0\<close> change no value. (They do
  change the dtype: an integer cell comes back as a float.)
\<close>

theorem processData_value_preserving:
  assumes "numeric_frame df"
  shows "\<exists>out. processData df = Inr out
           \<and> length out = length (rows df)
           \<and> map length out = map length (rows df)
           \<and> (exact_frame df \<longrightarrow> map (map cell_value) out = map (map cell_value) (rows df))"
proof -
  have "processData df = Inr (map (map to_float) (rows df))"
    using assms by (rule processData_numeric)
  moreover have "map (map cell_value) (map (map to_float) (rows df))
                 = map (map cell_value) (rows df)" if "exact_frame df"
    using that by (auto simp: exact_frame_def list_all_iff cell_value_to_float)
  ultimately show ?thesis by (simp add: comp_def)
qed

text \<open>
  C8 amended, at a table with integer, float and missing cells.
\<close>

theorem processData_value_preserving_witness:
  "numeric_frame \<lparr>columns = [Name ''PW'', Name ''PL''], rows = [[IntC 2, FloatC 14], [IntC 24, NaN]]\<rparr>
   \<and> exact_frame \<lparr>columns = [Name ''PW'', Name ''PL''], rows = [[IntC 2, FloatC 14], [IntC 24, NaN]]\<rparr>
   \<and> processData \<lparr>columns = [Name ''PW'', Name ''PL''], rows = [[IntC 2, FloatC 14], [IntC 24, NaN]]\<rparr>
       = Inr [[FloatC 2, FloatC 14], [FloatC 24, NaN]]
   \<and> map (map cell_value) [[FloatC 2, FloatC 14], [FloatC 24, NaN]]
       = map (map cell_value) [[IntC 2, FloatC 14], [IntC 24, NaN]]"
proof -
  let ?df = "\<lparr>columns = [Name ''PW'', Name ''PL''], rows = [[IntC 2, FloatC 14], [IntC 24, NaN]]\<rparr>"
  have n: "numeric_frame ?df" by (simp add: numeric_frame_def)
  have x: "exact_frame ?df" by (simp add: exact_frame_def)
  have p: "processData ?df = Inr [[FloatC 2, FloatC 14], [FloatC 24, NaN]]"
    by (simp add: processData_numeric [OF n] float64_of_int_exact)
  from processData_value_preserving [OF n] x p
  have "map (map cell_value) [[FloatC 2, FloatC 14], [FloatC 24, NaN]]
        = map (map cell_value) (rows ?df)" by auto
  with n x p show ?thesis by simp
qed

section \<open>Properties of the pool\<close>

lemma job_result_numeric: "numeric_frame df \<Longrightarrow> job_result df = map (map to_float) (rows df)"
  by (simp add: job_result_def processData_numeric)

lemma job_result_string: "\<not> numeric_frame df \<Longrightarrow> job_result df = []"
  by (simp add: job_result_def processData_string)

lemma on_completion_job_result: "on_completion (processData df) rs = rs @ job_result df"
  by (cases "processData df") (simp_all add: job_result_def on_completion_def collect_results_def)

lemma step_results:
  assumes "step k e s = Some s'"
    and "results s = concat (map (job_result \<circ> snd) (completed s))"
  shows "results s' = concat (map (job_result \<circ> snd) (completed s'))"
proof (cases e)
  case Take
  with assms show ?thesis by (auto split: list.splits if_splits)
next
  case (Finish i)
  with assms show ?thesis
    by (auto split: if_splits simp: on_completion_job_result)
qed

lemma mset_remove_nth:
  "i < length xs \<Longrightarrow> mset (take i xs @ drop (Suc i) xs) + {#xs ! i#} = mset xs"
proof -
  assume "i < length xs"
  then have "xs = take i xs @ xs ! i # drop (Suc i) xs" by (rule id_take_nth_drop)
  then have "mset xs = mset (take i xs @ xs ! i # drop (Suc i) xs)" by simp
  then show ?thesis by simp
qed

lemma step_tasks:
  assumes "step k e s = Some s'"
  shows "mset (completed s') + mset (running s') + mset (queue s')
         = mset (completed s) + mset (running s) + mset (queue s)"
proof (cases e)
  case Take
  with assms show ?thesis by (auto split: list.splits if_splits)
next
  case (Finish i)
  with assms have i: "i < length (running s)" by (auto split: if_splits)
  from Finish assms i have s': "s' = s\<lparr>running := take i (running s) @ drop (Suc i) (running s),
                    results := on_completion (processData (snd (running s ! i))) (results s),
                    completed := completed s @ [running s ! i]\<rparr>" by simp
  show ?thesis using mset_remove_nth [OF i] by (simp add: s' ac_simps)
qed

lemma run_results:
  "run k sched s = Some s' \<Longrightarrow> results s = concat (map (job_result \<circ> snd) (completed s))
   \<Longrightarrow> results s' = concat (map (job_result \<circ> snd) (completed s'))"
proof (induction sched arbitrary: s)
  case Nil
  then show ?case by simp
next
  case (Cons e es)
  from Cons.prems(1) obtain s1 where s1: "step k e s = Some s1" "run k es s1 = Some s'"
    by (auto split: option.splits)
  from step_results [OF s1(1) Cons.prems(2)] s1(2) show ?case by (rule Cons.IH [rotated])
qed

lemma run_tasks:
  "run k sched s = Some s' \<Longrightarrow>
   mset (completed s') + mset (running s') + mset (queue s')
     = mset (completed s) + mset (running s) + mset (queue s)"
proof (induction sched arbitrary: s)
  case Nil
  then show ?case by simp
next
  case (Cons e es)
  then show ?case by (auto split: option.splits dest: step_tasks)
qed

lemma run_completed:
  assumes "run k sched (apply_async_all jobs) = Some s" and "joined s"
  shows "mset (completed s) = mset (enumerate 0 jobs)"
  using run_tasks [OF assms(1)] assms(2) by (simp add: joined_def apply_async_all_def)

lemma run_accumulator:
  assumes "run k sched (apply_async_all jobs) = Some s"
  shows "results s = concat (map (job_result \<circ> snd) (completed s))"
  using run_results [OF assms] by (simp add: apply_async_all_def)

lemma mset_concat_map:
  "mset xs = mset ys \<Longrightarrow> mset (concat (map f xs)) = mset (concat (map f ys))"
proof -
  assume a: "mset xs = mset ys"
  have "\<And>zs. mset (concat (map f zs)) = sum_mset (image_mset (mset \<circ> f) (mset zs))"
    by (induct_tac zs) simp_all
  with a show ?thesis by simp
qed

lemma joined_results_mset:
  assumes "run k sched (apply_async_all jobs) = Some s" and "joined s"
  shows "mset (results s) = mset (concat (map job_result jobs))"
proof -
  have "mset (results s) = mset (concat (map (job_result \<circ> snd) (completed s)))"
    using run_accumulator [OF assms(1)] by simp
  also have "\<dots> = mset (concat (map (job_result \<circ> snd) (enumerate 0 jobs)))"
    using run_completed [OF assms] by (rule mset_concat_map)
  also have "map (job_result \<circ> snd) (enumerate 0 jobs) = map job_result jobs"
    by (simp flip: map_map)
  finally show ?thesis .
qed

lemma run_one_by_one:
  "0 < k \<Longrightarrow>
   run k (one_by_one (length q)) \<lparr>queue = q, running = [], results = rs, completed = cs\<rparr>
   = Some \<lparr>queue = [], running = [], results = rs @ concat (map (job_result \<circ> snd) q),
           completed = cs @ q\<rparr>"
proof (induction q arbitrary: rs cs)
  case Nil
  then show ?case by (simp add: one_by_one_def)
next
  case (Cons t q)
  from Cons.prems have "run k (one_by_one (length (t # q))) \<lparr>queue = t # q, running = [], results = rs, completed = cs\<rparr>
     = run k (one_by_one (length q)) \<lparr>queue = q, running = [], results = rs @ job_result (snd t), completed = cs @ [t]\<rparr>"
    by (simp add: one_by_one_def on_completion_job_result)
  then show ?case using Cons.IH [OF Cons.prems] by simp
qed

section \<open>Properties of the table constructors\<close>

lemma length_rows_pd_DataFrame: "length (rows (pd_DataFrame rs)) = length rs"
  by (simp add: pd_DataFrame_def Let_def)

lemma width_uniform:
  "list_all (\<lambda>r. length r = w) rs \<Longrightarrow> foldr max (map length rs) 0 = (if rs = [] then 0 else w)"
  by (induction rs) auto

lemma pd_DataFrame_uniform:
  assumes "list_all (\<lambda>r. length r = w) rs"
  shows "pd_DataFrame rs = \<lparr>columns = map Pos [0..<(if rs = [] then 0 else w)], rows = rs\<rparr>"
proof -
  have "map (\<lambda>r. r @ replicate ((if rs = [] then 0 else w) - length r) NaN) rs = rs"
    using assms by (auto simp: list_all_iff intro: map_idI)
  then show ?thesis
    by (simp add: pd_DataFrame_def Let_def width_uniform [OF assms])
qed

lemma pd_DataFrame_Nil: "pd_DataFrame [] = \<lparr>columns = [], rows = []\<rparr>"
  by (simp add: pd_DataFrame_def)

lemma width_set: "foldr max (map length rs) 0 = Max (insert 0 (length ` set rs))"
proof (induction rs)
  case Nil
  then show ?case by simp
next
  case (Cons r rs)
  have "Max (insert 0 (length ` set (r # rs))) = Max (insert (length r) (insert 0 (length ` set rs)))"
    by (simp add: insert_commute)
  also have "\<dots> = max (length r) (Max (insert 0 (length ` set rs)))"
    by (rule Max_insert) simp_all
  finally show ?case using Cons.IH by simp
qed

lemma pd_DataFrame_mset:
  assumes "mset rs1 = mset rs2"
  shows "mset (rows (pd_DataFrame rs1)) = mset (rows (pd_DataFrame rs2))"
    and "columns (pd_DataFrame rs1) = columns (pd_DataFrame rs2)"
proof -
  from assms have "set rs1 = set rs2" by (rule mset_eq_setD)
  then have w: "foldr max (map length rs1) 0 = foldr max (map length rs2) 0"
    by (simp add: width_set)
  show "columns (pd_DataFrame rs1) = columns (pd_DataFrame rs2)"
    by (simp add: pd_DataFrame_def Let_def w)
  have "mset (map (\<lambda>r. r @ replicate (foldr max (map length rs2) 0 - length r) NaN) rs1)
        = mset (map (\<lambda>r. r @ replicate (foldr max (map length rs2) 0 - length r) NaN) rs2)"
    using assms by simp
  then show "mset (rows (pd_DataFrame rs1)) = mset (rows (pd_DataFrame rs2))"
    by (simp add: pd_DataFrame_def Let_def w)
qed

lemma union_step_known:
  "set ls \<subseteq> set acc \<Longrightarrow> foldl (\<lambda>acc c. if c \<in> set acc then acc else acc @ [c]) acc ls = acc"
  by (induction ls) auto

lemma union_step_distinct:
  "distinct (acc @ ls) \<Longrightarrow>
   foldl (\<lambda>acc c. if c \<in> set acc then acc else acc @ [c]) acc ls = acc @ ls"
  by (induction ls arbitrary: acc) auto

lemma union_labels_common:
  assumes "objs \<noteq> []" and "list_all (\<lambda>df. columns df = cs) objs" and "distinct cs"
  shows "union_labels (concat (map columns objs)) = cs"
proof -
  from assms(1) obtain df rest where objs: "objs = df # rest" by (cases objs) auto
  with assms(2) have c: "columns df = cs" and r: "set (concat (map columns rest)) \<subseteq> set cs"
    by (auto simp: list_all_iff)
  have "foldl (\<lambda>acc c. if c \<in> set acc then acc else acc @ [c]) [] cs = cs"
    using union_step_distinct [of "[]" cs] assms(3) by simp
  then show ?thesis
    using union_step_known [OF r] by (simp add: union_labels_def objs c)
qed

lemma align_row:
  assumes "distinct cs" and "length r = length cs"
  shows "map (\<lambda>c. case map_of (zip cs r) c of None \<Rightarrow> NaN | Some v \<Rightarrow> v) cs = r"
proof (rule nth_equalityI)
  show "length (map (\<lambda>c. case map_of (zip cs r) c of None \<Rightarrow> NaN | Some v \<Rightarrow> v) cs) = length r"
    using assms(2) by simp
next
  fix i
  assume "i < length (map (\<lambda>c. case map_of (zip cs r) c of None \<Rightarrow> NaN | Some v \<Rightarrow> v) cs)"
  then have i: "i < length r" using assms(2) by simp
  have "map_of (zip cs r) (cs ! i) = Some (r ! i)"
    using assms(2) assms(1) i by (intro map_of_zip_nth) simp_all
  then show "map (\<lambda>c. case map_of (zip cs r) c of None \<Rightarrow> NaN | Some v \<Rightarrow> v) cs ! i = r ! i"
    using i assms(2) by simp
qed

lemma reindex_own: "wf_frame df \<Longrightarrow> reindex (columns df) df = rows df"
  by (auto simp: wf_frame_def reindex_def list_all_iff align_row intro: map_idI)

lemma pd_concat_common:
  assumes "objs \<noteq> []" and "list_all (\<lambda>df. wf_frame df \<and> columns df = cs) objs"
  shows "pd_concat objs = Inr \<lparr>columns = cs, rows = concat (map rows objs)\<rparr>"
proof -
  from assms obtain df where "df \<in> set objs" "wf_frame df" "columns df = cs"
    by (cases objs) auto
  then have d: "distinct cs" by (auto simp: wf_frame_def)
  have c: "list_all (\<lambda>df. columns df = cs) objs"
    using assms(2) by (simp add: list_all_iff)
  have "map (reindex cs) objs = map rows objs"
    using assms(2) reindex_own by (auto simp: list_all_iff)
  then have "concat (map (reindex cs) objs) = concat (map rows objs)"
    by (rule arg_cong)
  then show ?thesis
    by (simp add: pd_concat_def assms(1) Let_def union_labels_common [OF assms(1) c d])
qed

section \<open>Properties of the serial loop\<close>

lemma serial_loop_numeric:
  "list_all numeric_frame jobs \<Longrightarrow>
   serial_loop jobs res = Inr (res @ map (\<lambda>df. df\<lparr>rows := map (map to_float) (rows df)\<rparr>) jobs)"
  by (induction jobs arbitrary: res) (simp_all add: processData_serial_numeric)

lemma serial_loop_string:
  "\<not> list_all numeric_frame jobs \<Longrightarrow> serial_loop jobs res = Inl TypeError"
proof (induction jobs arbitrary: res)
  case Nil
  then show ?case by simp
next
  case (Cons df jobs)
  then show ?case
    by (cases "numeric_frame df") (simp_all add: processData_serial_numeric processData_serial_string)
qed

lemma sequential_submit_common:
  assumes "jobs \<noteq> []" and "list_all (\<lambda>df. wf_frame df \<and> columns df = cs) jobs"
    and "list_all numeric_frame jobs"
  shows "sequential_submit jobs = Inr \<lparr>columns = cs, rows = concat (map job_result jobs)\<rparr>"
proof -
  let ?out = "map (\<lambda>df. df\<lparr>rows := map (map to_float) (rows df)\<rparr>) jobs"
  have l: "serial_loop jobs [] = Inr ?out"
    using serial_loop_numeric [OF assms(3), of "[]"] by simp
  have ne: "?out \<noteq> []" using assms(1) by simp
  have wf: "list_all (\<lambda>df. wf_frame df \<and> columns df = cs) ?out"
    using assms(2) by (auto simp: list_all_iff wf_frame_def)
  have "map rows ?out = map job_result jobs"
    using assms(3) by (auto simp: list_all_iff job_result_numeric)
  then have "concat (map rows ?out) = concat (map job_result jobs)"
    by (rule arg_cong)
  then show ?thesis
    by (simp add: sequential_submit_def l pd_concat_common [OF ne wf])
qed

lemma sequential_submit_string:
  "\<not> list_all numeric_frame jobs \<Longrightarrow> sequential_submit jobs = Inl TypeError"
  by (simp add: sequential_submit_def serial_loop_string)

section \<open>Whole executions\<close>

lemma submit_Inr:
  assumes "submit k sched jobs = Some (Inr t)"
  obtains s where "run k sched (apply_async_all jobs) = Some s" and "joined s"
    and "t = pd_DataFrame (results s)" and "0 < k"
  using assms by (auto simp: submit_def split: if_splits option.splits)

lemma submit_positive:
  assumes "0 < k" and "submit k sched jobs = Some r"
  obtains s where "run k sched (apply_async_all jobs) = Some s" and "joined s"
    and "r = Inr (pd_DataFrame (results s))"
  using assms by (auto simp: submit_def split: if_splits option.splits)

lemma submit_one_by_one:
  assumes "0 < k"
  shows "submit k (one_by_one (length jobs)) jobs
         = Some (Inr (pd_DataFrame (concat (map job_result jobs))))"
proof -
  have "run k (one_by_one (length (enumerate 0 jobs))) (apply_async_all jobs)
        = Some \<lparr>queue = [], running = [],
                results = [] @ concat (map (job_result \<circ> snd) (enumerate 0 jobs)),
                completed = [] @ enumerate 0 jobs\<rparr>"
    unfolding apply_async_all_def using assms by (rule run_one_by_one)
  moreover have "map (job_result \<circ> snd) (enumerate 0 jobs) = map job_result jobs"
    by (simp flip: map_map)
  ultimately show ?thesis using assms by (simp add: submit_def joined_def)
qed

lemma job_result_width:
  assumes "wf_frame df" and "length (columns df) = w"
  shows "list_all (\<lambda>r. length r = w) (job_result df)"
proof (cases "numeric_frame df")
  case True
  then show ?thesis using assms by (auto simp: job_result_numeric wf_frame_def list_all_iff)
next
  case False
  then show ?thesis by (simp add: job_result_string)
qed

lemma job_results_width:
  assumes "list_all (\<lambda>df. wf_frame df \<and> length (columns df) = w) jobs"
    and "mset tasks = mset (enumerate 0 jobs)"
  shows "list_all (\<lambda>r. length r = w) (concat (map (job_result \<circ> snd) tasks))"
proof -
  have "set (map snd tasks) = set (map snd (enumerate 0 jobs))"
    using assms(2) by (metis mset_eq_setD mset_map)
  then have "snd ` set tasks = set jobs" by simp
  then have "\<forall>t\<in>set tasks. wf_frame (snd t) \<and> length (columns (snd t)) = w"
    using assms(1) by (auto simp: list_all_iff)
  then show ?thesis
    using job_result_width by (fastforce simp: list_all_iff)
qed

text \<open>An execution never gets stuck: with at least one worker, every schedule that
  the pool can follow extends to the schedule of a whole execution.\<close>

lemma run_append:
  "run k (a @ b) s = (case run k a s of None \<Rightarrow> None | Some s' \<Rightarrow> run k b s')"
  by (induction a arbitrary: s) (simp_all split: option.splits)

lemma run_drain:
  "length (running s) = n \<Longrightarrow>
   \<exists>s'. run k (replicate n (Finish 0)) s = Some s' \<and> running s' = [] \<and> queue s' = queue s"
proof (induction n arbitrary: s)
  case 0
  then show ?case by simp
next
  case (Suc n)
  let ?s1 = "s\<lparr>running := take 0 (running s) @ drop (Suc 0) (running s),
               results := on_completion (processData (snd (running s ! 0))) (results s),
               completed := completed s @ [running s ! 0]\<rparr>"
  from Suc.prems have st: "step k (Finish 0) s = Some ?s1" by simp
  from Suc.prems have "length (running ?s1) = n" by simp
  from Suc.IH [OF this] obtain s' where
    "run k (replicate n (Finish 0)) ?s1 = Some s'" "running s' = []" "queue s' = queue s"
    by auto
  with st show ?case by (simp del: step.simps)
qed

lemma run_extends:
  assumes "0 < k" and "run k sched s0 = Some s"
  shows "\<exists>rest s'. run k (sched @ rest) s0 = Some s' \<and> joined s'"
proof -
  from run_drain [OF refl, where s = s and k = k] obtain s1 where
    d: "run k (replicate (length (running s)) (Finish 0)) s = Some s1"
    and r: "running s1 = []" by auto
  have "s1 = \<lparr>queue = queue s1, running = [], results = results s1, completed = completed s1\<rparr>"
    using r by (cases s1) simp
  then have "run k (one_by_one (length (queue s1))) s1
        = Some \<lparr>queue = [], running = [],
                results = results s1 @ concat (map (job_result \<circ> snd) (queue s1)),
                completed = completed s1 @ queue s1\<rparr>"
    using run_one_by_one [OF assms(1), of "queue s1" "results s1" "completed s1"] by simp
  then have "run k (sched @ replicate (length (running s)) (Finish 0) @ one_by_one (length (queue s1))) s0
             = Some \<lparr>queue = [], running = [],
                results = results s1 @ concat (map (job_result \<circ> snd) (queue s1)),
                completed = completed s1 @ queue s1\<rparr>"
    by (simp add: run_append assms(2) d)
  moreover have "joined \<lparr>queue = [], running = [],
                results = results s1 @ concat (map (job_result \<circ> snd) (queue s1)),
                completed = completed s1 @ queue s1\<rparr>"
    by (simp add: joined_def)
  ultimately show ?thesis by blast
qed

text \<open>The history of the pool is the order of completion that the schedule gives.\<close>

lemma enumerate_tasks: "enumerate 0 jobs = map (\<lambda>i. (i, jobs ! i)) [0..<length jobs]"
  by (rule nth_equalityI) (simp_all add: enumerate_eq_zip)

lemma run_completions:
  assumes "queue s = map (\<lambda>i. (i, jobs ! i)) [nxt..<length jobs]"
    and "running s = map (\<lambda>i. (i, jobs ! i)) rn"
    and "run k sched s = Some s'"
  shows "completed s' = completed s @ map (\<lambda>i. (i, jobs ! i)) (completions sched nxt rn)"
  using assms
proof (induction sched arbitrary: s nxt rn)
  case Nil
  then show ?case by simp
next
  case (Cons e es)
  from Cons.prems(3) obtain s1 where s1: "step k e s = Some s1" "run k es s1 = Some s'"
    by (auto split: option.splits)
  show ?case
  proof (cases e)
    case Take
    with s1(1) obtain t q where q: "queue s = t # q"
      and s1_eq: "s1 = s\<lparr>queue := q, running := running s @ [t]\<rparr>"
      by (auto split: list.splits if_splits)
    from q Cons.prems(1) have lt: "nxt < length jobs" by (cases "nxt < length jobs") auto
    then have "[nxt..<length jobs] = nxt # [Suc nxt..<length jobs]" by (rule upt_conv_Cons)
    with q Cons.prems(1) have t: "t = (nxt, jobs ! nxt)"
      and q': "q = map (\<lambda>i. (i, jobs ! i)) [Suc nxt..<length jobs]" by simp_all
    have "completed s' = completed s1
            @ map (\<lambda>i. (i, jobs ! i)) (completions es (Suc nxt) (rn @ [nxt]))"
      by (rule Cons.IH [OF _ _ s1(2)]) (simp_all add: s1_eq q' t Cons.prems(2))
    then show ?thesis by (simp add: Take s1_eq)
  next
    case (Finish i)
    with s1(1) have i: "i < length (running s)" by (auto split: if_splits)
    with Cons.prems(2) have irn: "i < length rn" by simp
    from Finish s1(1) i have s1_eq:
      "s1 = s\<lparr>running := take i (running s) @ drop (Suc i) (running s),
              results := on_completion (processData (snd (running s ! i))) (results s),
              completed := completed s @ [running s ! i]\<rparr>" by simp
    have nth: "running s ! i = (rn ! i, jobs ! (rn ! i))"
      using irn by (simp add: Cons.prems(2))
    have "completed s' = completed s1
            @ map (\<lambda>i. (i, jobs ! i)) (completions es nxt (take i rn @ drop (Suc i) rn))"
      by (rule Cons.IH [OF _ _ s1(2)])
        (simp_all add: s1_eq Cons.prems(1) Cons.prems(2) take_map drop_map)
    then show ?thesis by (simp add: Finish s1_eq irn nth)
  qed
qed

lemma completed_completion_order:
  assumes "run k sched (apply_async_all jobs) = Some s"
  shows "completed s = map (\<lambda>i. (i, jobs ! i)) (completion_order sched)"
  using run_completions [of "apply_async_all jobs" jobs 0 "[]" k sched s] assms
  by (simp add: apply_async_all_def enumerate_tasks completion_order_def)

lemma results_completion_order:
  assumes "run k sched (apply_async_all jobs) = Some s"
  shows "results s = concat (map (\<lambda>i. job_result (jobs ! i)) (completion_order sched))"
  using run_accumulator [OF assms] completed_completion_order [OF assms]
  by (simp add: comp_def)

lemma completion_order_perm:
  assumes "run k sched (apply_async_all jobs) = Some s" and "joined s"
  shows "mset (completion_order sched) = mset [0..<length jobs]"
proof -
  have "mset (map fst (completed s)) = mset (map fst (enumerate 0 jobs))"
    using run_completed [OF assms] by (metis mset_map)
  then show ?thesis
    by (simp add: completed_completion_order [OF assms(1)] comp_def)
qed

lemma run_prefix:
  assumes "run k sched s0 = Some s"
  shows "\<exists>s'. run k (take m sched) s0 = Some s'"
proof -
  have "run k (take m sched @ drop m sched) s0 = Some s" using assms by simp
  then show ?thesis
    unfolding run_append by (cases "run k (take m sched) s0") simp_all
qed

text \<open>The table of \<open>pd.DataFrame\<close> in terms of its own columns.\<close>

lemma rows_pd_DataFrame:
  "rows (pd_DataFrame rs)
   = map (\<lambda>r. r @ replicate (length (columns (pd_DataFrame rs)) - length r) NaN) rs"
  by (simp add: pd_DataFrame_def Let_def)



section \<open>More on the pool\<close>

lemma run_empty_pool:
  assumes "run k sched (apply_async_all []) = Some s"
  shows "s = apply_async_all []"
proof (cases sched)
  case Nil
  with assms show ?thesis by simp
next
  case (Cons e es)
  have "step k e (apply_async_all []) = None"
    by (cases e) (simp_all add: apply_async_all_def)
  with Cons assms show ?thesis by simp
qed

lemma processData_raises: "processData df = Inl e \<Longrightarrow> \<not> numeric_frame df"
  by (auto simp: processData_numeric)

lemma job_result_lengths:
  "(\<Sum>df\<leftarrow>jobs. length (job_result df)) = (\<Sum>df\<leftarrow>filter numeric_frame jobs. length (rows df))"
  by (induction jobs) (simp_all add: job_result_numeric job_result_string)

lemma columns_pd_DataFrame:
  "columns (pd_DataFrame rs) = map Pos [0..<length (columns (pd_DataFrame rs))]"
  by (simp add: pd_DataFrame_def Let_def)





section \<open>Properties of the serial cell\<close>

lemma serial_cell_eq:
  "serial_cell n payload g =
     (case serial_loop (replicate n (read_csv payload)) [] of
        Inl e \<Rightarrow> Inl e
      | Inr rs \<Rightarrow>
          (case pd_concat rs of
             Inl e \<Rightarrow> Inl e
           | Inr f \<Rightarrow> Inr \<lparr>nb_df = read_csv payload, nb_results = rs, nb_final = Some f\<rparr>))"
  by (cases g) (simp add: serial_cell_def Let_def split: sum.splits)

lemma serial_cell_final:
  "serial_cell n payload g =
     (case sequential_submit (replicate n (read_csv payload)) of
        Inl e \<Rightarrow> Inl e
      | Inr f \<Rightarrow> Inr \<lparr>nb_df = read_csv payload,
                      nb_results = (case serial_loop (replicate n (read_csv payload)) [] of
                                      Inr rs \<Rightarrow> rs | Inl e \<Rightarrow> []),
                      nb_final = Some f\<rparr>)"
  by (simp add: serial_cell_eq sequential_submit_def split: sum.splits)

section \<open>Worked executions\<close>

lemma example_run:
  "run 2 [Take, Take, Finish 1, Finish 0]
     (apply_async_all [\<lparr>columns = [Name ''a''], rows = [[FloatC 1]]\<rparr>,
                       \<lparr>columns = [Name ''a''], rows = [[IntC 2]]\<rparr>])
   = Some \<lparr>queue = [], running = [], results = [[FloatC 2], [FloatC 1]],
           completed = [(1, \<lparr>columns = [Name ''a''], rows = [[IntC 2]]\<rparr>),
                        (0, \<lparr>columns = [Name ''a''], rows = [[FloatC 1]]\<rparr>)]\<rparr>"
  by (simp add: apply_async_all_def processData_numeric numeric_frame_def on_completion_def
      collect_results_def float64_of_int_exact)

lemma example_submit:
  "submit 2 [Take, Take, Finish 1, Finish 0]
     [\<lparr>columns = [Name ''a''], rows = [[FloatC 1]]\<rparr>,
      \<lparr>columns = [Name ''a''], rows = [[IntC 2]]\<rparr>]
   = Some (Inr \<lparr>columns = [Pos 0], rows = [[FloatC 2], [FloatC 1]]\<rparr>)"
  unfolding submit_def example_run by (simp add: joined_def pd_DataFrame_def)

lemma example_job_results:
  "job_result \<lparr>columns = [Name ''a''], rows = [[FloatC 1]]\<rparr> = [[FloatC 1]]"
  "job_result \<lparr>columns = [Name ''a''], rows = [[IntC 2]]\<rparr> = [[FloatC 2]]"
  "job_result \<lparr>columns = [Name ''a''], rows = [[StrC ''x'']]\<rparr> = []"
  by (simp_all add: job_result_numeric job_result_string numeric_frame_def float64_of_int_exact)

section \<open>The claims\<close>

text \<open>
  C3 fails as to the rows when the results of the jobs differ in width: \<open>pd.DataFrame\<close>
  fills the shorter rows up with \<open>NaN\<close>. Of two jobs, with one and with two columns, the
  table holds the row \<open>[1, NaN]\<close>, which is no row of a result.
\<close>

theorem combined_table_padding_counterexample:
  "submit 1 [Take, Finish 0, Take, Finish 0]
     [\<lparr>columns = [Name ''a''], rows = [[FloatC 1]]\<rparr>,
      \<lparr>columns = [Name ''a'', Name ''b''], rows = [[FloatC 2, FloatC 3]]\<rparr>]
   = Some (Inr \<lparr>columns = [Pos 0, Pos 1],
                 rows = [[FloatC 1, NaN], [FloatC 2, FloatC 3]]\<rparr>)
   \<and> processData \<lparr>columns = [Name ''a''], rows = [[FloatC 1]]\<rparr> = Inr [[FloatC 1]]
   \<and> processData \<lparr>columns = [Name ''a'', Name ''b''], rows = [[FloatC 2, FloatC 3]]\<rparr>
       = Inr [[FloatC 2, FloatC 3]]
   \<and> mset [[FloatC 1, NaN], [FloatC 2, FloatC 3]]
       \<noteq> mset [[FloatC 1]] + mset [[FloatC 2, FloatC 3]]"
proof -
  have "[FloatC 1, NaN] \<in># mset [[FloatC 1, NaN], [FloatC 2, FloatC 3]]" by simp
  moreover have "[FloatC 1, NaN] \<notin># mset [[FloatC 1]] + mset [[FloatC 2, FloatC 3]]" by simp
  ultimately have "mset [[FloatC 1, NaN], [FloatC 2, FloatC 3]]
       \<noteq> mset [[FloatC 1]] + mset [[FloatC 2, FloatC 3]]" by metis
  then show ?thesis
    by (simp add: submit_def apply_async_all_def processData_numeric numeric_frame_def
        on_completion_def collect_results_def joined_def pd_DataFrame_def)
qed

text \<open>
  C3, amended. Take any list of jobs and at least one worker. Then \<open>submit\<close> has an
  execution, and for every schedule of a whole execution, that is, for every order in
  which the jobs complete, the table that \<open>submit\<close> returns has as many rows as the
  results of the jobs have together, and its multiset of rows is the multiset union of
  the rows of the results, each row filled up with \<open>NaN\<close> to the number of columns of the
  table: no row is dropped and none is duplicated. When the rows of all results have one
  width, it is the multiset union of the rows of the results themselves. (The result of
  a job is what \<open>processData\<close> returns on it; a job on which it raised has none.)
\<close>

theorem combined_table_row_multiset:
  assumes "0 < k"
  shows "(\<exists>sched t. submit k sched jobs = Some (Inr t))
       \<and> (\<forall>sched r. submit k sched jobs = Some r \<longrightarrow>
            (\<exists>t. r = Inr t
               \<and> length (rows t) = (\<Sum>df\<leftarrow>jobs. length (job_result df))
               \<and> mset (rows t)
                   = image_mset (\<lambda>r. r @ replicate (length (columns t) - length r) NaN)
                       (\<Sum>df\<leftarrow>jobs. mset (job_result df))
               \<and> (list_all (\<lambda>r. length r = w) (concat (map job_result jobs)) \<longrightarrow>
                    mset (rows t) = (\<Sum>df\<leftarrow>jobs. mset (job_result df)))))"
proof (intro conjI allI impI)
  show "\<exists>sched t. submit k sched jobs = Some (Inr t)"
    using submit_one_by_one [OF assms] by blast
  fix sched r
  assume "submit k sched jobs = Some r"
  with assms obtain s where s: "run k sched (apply_async_all jobs) = Some s" "joined s"
    and r: "r = Inr (pd_DataFrame (results s))" by (rule submit_positive)
  let ?t = "pd_DataFrame (results s)"
  have m: "mset (results s) = mset (concat (map job_result jobs))"
    using s by (rule joined_results_mset)
  then have l: "length (results s) = length (concat (map job_result jobs))"
    by (rule mset_eq_length)
  have len: "length (rows ?t) = (\<Sum>df\<leftarrow>jobs. length (job_result df))"
    using l by (simp add: length_rows_pd_DataFrame length_concat comp_def)
  have "mset (rows ?t)
        = image_mset (\<lambda>r. r @ replicate (length (columns ?t) - length r) NaN) (mset (results s))"
    by (subst rows_pd_DataFrame) simp
  then have pad: "mset (rows ?t)
        = image_mset (\<lambda>r. r @ replicate (length (columns ?t) - length r) NaN)
            (\<Sum>df\<leftarrow>jobs. mset (job_result df))"
    by (simp add: m mset_concat comp_def)
  have uni: "mset (rows ?t) = (\<Sum>df\<leftarrow>jobs. mset (job_result df))"
    if u: "list_all (\<lambda>r. length r = w) (concat (map job_result jobs))"
  proof -
    have "set (results s) = set (concat (map job_result jobs))"
      using m by (rule mset_eq_setD)
    with u have "list_all (\<lambda>r. length r = w) (results s)"
      by (simp add: list_all_iff)
    then have "rows ?t = results s" by (simp add: pd_DataFrame_uniform)
    then show ?thesis by (simp add: m mset_concat comp_def)
  qed
  from len pad uni show "\<exists>t. r = Inr t
               \<and> length (rows t) = (\<Sum>df\<leftarrow>jobs. length (job_result df))
               \<and> mset (rows t)
                   = image_mset (\<lambda>r. r @ replicate (length (columns t) - length r) NaN)
                       (\<Sum>df\<leftarrow>jobs. mset (job_result df))
               \<and> (list_all (\<lambda>r. length r = w) (concat (map job_result jobs)) \<longrightarrow>
                    mset (rows t) = (\<Sum>df\<leftarrow>jobs. mset (job_result df)))"
    unfolding r by blast
qed

text \<open>
  C3 amended, at a job of two rows and a job of one row, which completes first: the table
  has the three rows.
\<close>

theorem combined_table_row_multiset_witness:
  "submit 2 [Take, Take, Finish 1, Finish 0]
     [\<lparr>columns = [Name ''a'', Name ''b''], rows = [[FloatC 1, FloatC 2], [FloatC 3, FloatC 4]]\<rparr>,
      \<lparr>columns = [Name ''a'', Name ''b''], rows = [[IntC 5, NaN]]\<rparr>]
   = Some (Inr \<lparr>columns = [Pos 0, Pos 1],
                 rows = [[FloatC 5, NaN], [FloatC 1, FloatC 2], [FloatC 3, FloatC 4]]\<rparr>)
   \<and> processData \<lparr>columns = [Name ''a'', Name ''b''], rows = [[FloatC 1, FloatC 2], [FloatC 3, FloatC 4]]\<rparr>
       = Inr [[FloatC 1, FloatC 2], [FloatC 3, FloatC 4]]
   \<and> processData \<lparr>columns = [Name ''a'', Name ''b''], rows = [[IntC 5, NaN]]\<rparr>
       = Inr [[FloatC 5, NaN]]
   \<and> length [[FloatC 5, NaN], [FloatC 1, FloatC 2], [FloatC 3, FloatC 4]] = 2 + 1
   \<and> mset [[FloatC 5, NaN], [FloatC 1, FloatC 2], [FloatC 3, FloatC 4]]
       = mset [[FloatC 1, FloatC 2], [FloatC 3, FloatC 4]] + mset [[FloatC 5, NaN]]"
proof -
  let ?A = "\<lparr>columns = [Name ''a'', Name ''b''], rows = [[FloatC 1, FloatC 2], [FloatC 3, FloatC 4]]\<rparr>"
  let ?B = "\<lparr>columns = [Name ''a'', Name ''b''], rows = [[IntC 5, NaN]]\<rparr>"
  let ?jobs = "[?A, ?B]"
  let ?sched = "[Take, Take, Finish 1, Finish 0]"
  let ?t = "\<lparr>columns = [Pos 0, Pos 1],
                 rows = [[FloatC 5, NaN], [FloatC 1, FloatC 2], [FloatC 3, FloatC 4]]\<rparr>"
  have pa: "processData ?A = Inr [[FloatC 1, FloatC 2], [FloatC 3, FloatC 4]]"
    by (simp add: processData_numeric numeric_frame_def)
  have pb: "processData ?B = Inr [[FloatC 5, NaN]]"
    by (simp add: processData_numeric numeric_frame_def float64_of_int_exact)
  have sub: "submit 2 ?sched ?jobs = Some (Inr ?t)"
    by (simp add: submit_def apply_async_all_def pa pb on_completion_def collect_results_def
        joined_def pd_DataFrame_def)
  have ja: "job_result ?A = [[FloatC 1, FloatC 2], [FloatC 3, FloatC 4]]"
    by (simp add: job_result_def pa)
  have jb: "job_result ?B = [[FloatC 5, NaN]]"
    by (simp add: job_result_def pb)
  have k: "(0::nat) < 2" by simp
  have u: "list_all (\<lambda>r. length r = 2) (concat (map job_result ?jobs))"
    by (simp add: ja jb)
  from combined_table_row_multiset [OF k, of ?jobs 2] sub u
  have "length (rows ?t) = (\<Sum>df\<leftarrow>?jobs. length (job_result df))
      \<and> mset (rows ?t) = (\<Sum>df\<leftarrow>?jobs. mset (job_result df))"
    by blast
  then have "length [[FloatC 5, NaN], [FloatC 1, FloatC 2], [FloatC 3, FloatC 4]] = 2 + 1
      \<and> mset [[FloatC 5, NaN], [FloatC 1, FloatC 2], [FloatC 3, FloatC 4]]
          = mset [[FloatC 1, FloatC 2], [FloatC 3, FloatC 4]] + mset [[FloatC 5, NaN]]"
    by (simp add: ja jb)
  with sub pa pb show ?thesis by blast
qed

text \<open>
  C5 fails as to the table when the results of the jobs differ in width: of two jobs,
  with one and with two columns, the second completes first, and the table is not the
  concatenation of the two results in that order, since \<open>pd.DataFrame\<close> has filled the
  row of the first job up with \<open>NaN\<close>.
\<close>

theorem completion_order_padding_counterexample:
  "submit 2 [Take, Take, Finish 1, Finish 0]
     [\<lparr>columns = [Name ''a''], rows = [[FloatC 1]]\<rparr>,
      \<lparr>columns = [Name ''a'', Name ''b''], rows = [[FloatC 2, FloatC 3]]\<rparr>]
   = Some (Inr \<lparr>columns = [Pos 0, Pos 1],
                 rows = [[FloatC 2, FloatC 3], [FloatC 1, NaN]]\<rparr>)
   \<and> completion_order [Take, Take, Finish 1, Finish 0] = [1, 0]
   \<and> processData \<lparr>columns = [Name ''a'', Name ''b''], rows = [[FloatC 2, FloatC 3]]\<rparr>
       = Inr [[FloatC 2, FloatC 3]]
   \<and> processData \<lparr>columns = [Name ''a''], rows = [[FloatC 1]]\<rparr> = Inr [[FloatC 1]]
   \<and> [[FloatC 2, FloatC 3], [FloatC 1, NaN]] \<noteq> [[FloatC 2, FloatC 3]] @ [[FloatC 1]]"
  by (simp add: submit_def apply_async_all_def processData_numeric numeric_frame_def
      on_completion_def collect_results_def joined_def pd_DataFrame_def completion_order_def)

text \<open>
  C5, amended. Take any list of jobs and any schedule of a whole execution of \<open>submit\<close>.
  The order of completion that the schedule gives holds every job once. The rows of the
  table returned are the concatenation of the results of the jobs in the order of their
  completion, not of their submission, each row filled up with \<open>NaN\<close> to the number of
  columns of the table; when the rows of all results have one width, they are that
  concatenation itself. After each event of the schedule the global list \<open>results\<close> is the
  concatenation of the results of the jobs completed so far, in the order of their
  completion. (The result of a job is what \<open>processData\<close> returns on it.)
\<close>

theorem results_in_completion_order:
  assumes "submit k sched jobs = Some (Inr t)"
  shows "mset (completion_order sched) = mset [0..<length jobs]
       \<and> rows t = map (\<lambda>r. r @ replicate (length (columns t) - length r) NaN)
                    (concat (map (\<lambda>i. job_result (jobs ! i)) (completion_order sched)))
       \<and> (list_all (\<lambda>r. length r = w) (concat (map job_result jobs)) \<longrightarrow>
            rows t = concat (map (\<lambda>i. job_result (jobs ! i)) (completion_order sched)))
       \<and> (\<forall>m. \<exists>s. run k (take m sched) (apply_async_all jobs) = Some s
              \<and> results s = concat (map (\<lambda>i. job_result (jobs ! i))
                                     (completion_order (take m sched))))"
proof (intro conjI impI allI)
  from assms obtain s where s: "run k sched (apply_async_all jobs) = Some s" "joined s"
    and t: "t = pd_DataFrame (results s)" by (rule submit_Inr)
  have res: "results s = concat (map (\<lambda>i. job_result (jobs ! i)) (completion_order sched))"
    using s(1) by (rule results_completion_order)
  show "mset (completion_order sched) = mset [0..<length jobs]"
    using s by (rule completion_order_perm)
  show "rows t = map (\<lambda>r. r @ replicate (length (columns t) - length r) NaN)
                    (concat (map (\<lambda>i. job_result (jobs ! i)) (completion_order sched)))"
    unfolding t by (subst rows_pd_DataFrame) (simp only: res)
  show "rows t = concat (map (\<lambda>i. job_result (jobs ! i)) (completion_order sched))"
    if u: "list_all (\<lambda>r. length r = w) (concat (map job_result jobs))"
  proof -
    have "set (results s) = set (concat (map job_result jobs))"
      using joined_results_mset [OF s] by (rule mset_eq_setD)
    with u have "list_all (\<lambda>r. length r = w) (results s)"
      by (simp add: list_all_iff)
    then have "rows t = results s" by (simp add: t pd_DataFrame_uniform)
    with res show ?thesis by simp
  qed
  fix m
  from run_prefix [OF s(1)] obtain s' where
    s': "run k (take m sched) (apply_async_all jobs) = Some s'" by blast
  from results_completion_order [OF s'] s'
  show "\<exists>s. run k (take m sched) (apply_async_all jobs) = Some s
              \<and> results s = concat (map (\<lambda>i. job_result (jobs ! i))
                                     (completion_order (take m sched)))"
    by blast
qed

text \<open>
  C5 amended, at a job of two rows and a job of one row, which completes first: its row
  comes first in the table, and after three events of the schedule it is the only row of
  \<open>results\<close>.
\<close>

theorem results_in_completion_order_witness:
  "submit 2 [Take, Take, Finish 1, Finish 0]
     [\<lparr>columns = [Name ''a'', Name ''b''], rows = [[FloatC 1, FloatC 2], [FloatC 3, FloatC 4]]\<rparr>,
      \<lparr>columns = [Name ''a'', Name ''b''], rows = [[IntC 5, NaN]]\<rparr>]
   = Some (Inr \<lparr>columns = [Pos 0, Pos 1],
                 rows = [[FloatC 5, NaN], [FloatC 1, FloatC 2], [FloatC 3, FloatC 4]]\<rparr>)
   \<and> processData \<lparr>columns = [Name ''a'', Name ''b''], rows = [[FloatC 1, FloatC 2], [FloatC 3, FloatC 4]]\<rparr>
       = Inr [[FloatC 1, FloatC 2], [FloatC 3, FloatC 4]]
   \<and> processData \<lparr>columns = [Name ''a'', Name ''b''], rows = [[IntC 5, NaN]]\<rparr>
       = Inr [[FloatC 5, NaN]]
   \<and> completion_order [Take, Take, Finish 1, Finish 0] = [1, 0]
   \<and> [[FloatC 5, NaN], [FloatC 1, FloatC 2], [FloatC 3, FloatC 4]]
       = [[FloatC 5, NaN]] @ [[FloatC 1, FloatC 2], [FloatC 3, FloatC 4]]
   \<and> (\<exists>s. run 2 [Take, Take, Finish 1]
            (apply_async_all
              [\<lparr>columns = [Name ''a'', Name ''b''], rows = [[FloatC 1, FloatC 2], [FloatC 3, FloatC 4]]\<rparr>,
               \<lparr>columns = [Name ''a'', Name ''b''], rows = [[IntC 5, NaN]]\<rparr>]) = Some s
          \<and> results s = [[FloatC 5, NaN]])"
proof -
  let ?A = "\<lparr>columns = [Name ''a'', Name ''b''], rows = [[FloatC 1, FloatC 2], [FloatC 3, FloatC 4]]\<rparr>"
  let ?B = "\<lparr>columns = [Name ''a'', Name ''b''], rows = [[IntC 5, NaN]]\<rparr>"
  let ?jobs = "[?A, ?B]"
  let ?sched = "[Take, Take, Finish 1, Finish 0]"
  let ?t = "\<lparr>columns = [Pos 0, Pos 1],
                 rows = [[FloatC 5, NaN], [FloatC 1, FloatC 2], [FloatC 3, FloatC 4]]\<rparr>"
  have pa: "processData ?A = Inr [[FloatC 1, FloatC 2], [FloatC 3, FloatC 4]]"
    by (simp add: processData_numeric numeric_frame_def)
  have pb: "processData ?B = Inr [[FloatC 5, NaN]]"
    by (simp add: processData_numeric numeric_frame_def float64_of_int_exact)
  have sub: "submit 2 ?sched ?jobs = Some (Inr ?t)"
    by (simp add: submit_def apply_async_all_def pa pb on_completion_def collect_results_def
        joined_def pd_DataFrame_def)
  have ja: "job_result ?A = [[FloatC 1, FloatC 2], [FloatC 3, FloatC 4]]"
    by (simp add: job_result_def pa)
  have jb: "job_result ?B = [[FloatC 5, NaN]]"
    by (simp add: job_result_def pb)
  note th = results_in_completion_order [OF sub, of 2]
  have o: "completion_order ?sched = [1, 0]" by (simp add: completion_order_def)
  have o3: "completion_order (take 3 ?sched) = [1]" by (simp add: completion_order_def)
  have t3: "take 3 ?sched = [Take, Take, Finish 1]" by simp
  have u: "list_all (\<lambda>r. length r = 2) (concat (map job_result ?jobs))"
    by (simp add: ja jb)
  from th u have "rows ?t = concat (map (\<lambda>i. job_result (?jobs ! i)) (completion_order ?sched))"
    by blast
  then have a: "[[FloatC 5, NaN], [FloatC 1, FloatC 2], [FloatC 3, FloatC 4]]
                = [[FloatC 5, NaN]] @ [[FloatC 1, FloatC 2], [FloatC 3, FloatC 4]]"
    unfolding o by (simp add: ja jb)
  from th obtain s where r3: "run 2 (take 3 ?sched) (apply_async_all ?jobs) = Some s"
    and "results s = concat (map (\<lambda>i. job_result (?jobs ! i)) (completion_order (take 3 ?sched)))"
    by blast
  then have "results s = [[FloatC 5, NaN]]"
    unfolding o3 by (simp add: jb)
  with r3 [unfolded t3]
  have b: "\<exists>s. run 2 [Take, Take, Finish 1] (apply_async_all ?jobs) = Some s
                  \<and> results s = [[FloatC 5, NaN]]"
    by blast
  from sub pa pb o a b show ?thesis by blast
qed

text \<open>
  C4 fails on the empty list of jobs: with any number of workers the parallel path
  returns a table without rows, and the serial path raises \<open>ValueError\<close>, since
  \<open>pd.concat\<close> rejects an empty list. There is no table of the serial path to compare.
\<close>

theorem worker_count_counterexample:
  "submit 1 [] [] = Some (Inr \<lparr>columns = [], rows = []\<rparr>)
   \<and> submit 8 [] [] = Some (Inr \<lparr>columns = [], rows = []\<rparr>)
   \<and> sequential_submit [] = Inl ValueError"
  by (simp add: submit_def apply_async_all_def joined_def pd_DataFrame_def
      sequential_submit_def pd_concat_def)

text \<open>
  C4, amended. For every list of jobs, two whole executions of the parallel path, with
  any numbers of workers \<open>k1\<close> and \<open>k2\<close> and any schedules, return tables with the same
  multiset of rows and the same columns; with at least one worker there is such an
  execution. When the list is not empty and the jobs are well-formed numeric tables of
  one schema, the serial path returns a table with this same multiset of rows.
\<close>

theorem worker_count_irrelevant:
  assumes "submit k1 sched1 jobs = Some (Inr t1)" and "submit k2 sched2 jobs = Some (Inr t2)"
  shows "mset (rows t1) = mset (rows t2) \<and> columns t1 = columns t2
       \<and> (0 < k \<longrightarrow> (\<exists>sched t. submit k sched jobs = Some (Inr t)))
       \<and> (jobs \<noteq> [] \<and> list_all numeric_frame jobs
            \<and> list_all (\<lambda>df. wf_frame df \<and> columns df = cs) jobs \<longrightarrow>
          (\<exists>t. sequential_submit jobs = Inr t \<and> mset (rows t) = mset (rows t1)))"
proof (intro conjI impI)
  from assms(1) obtain s1 where s1: "run k1 sched1 (apply_async_all jobs) = Some s1" "joined s1"
    and t1: "t1 = pd_DataFrame (results s1)" by (rule submit_Inr)
  from assms(2) obtain s2 where s2: "run k2 sched2 (apply_async_all jobs) = Some s2" "joined s2"
    and t2: "t2 = pd_DataFrame (results s2)" by (rule submit_Inr)
  have m1: "mset (results s1) = mset (concat (map job_result jobs))"
    using s1 by (rule joined_results_mset)
  have m2: "mset (results s2) = mset (concat (map job_result jobs))"
    using s2 by (rule joined_results_mset)
  from m1 m2 have m: "mset (results s1) = mset (results s2)" by simp
  show "mset (rows t1) = mset (rows t2)"
    unfolding t1 t2 using m by (rule pd_DataFrame_mset)
  show "columns t1 = columns t2"
    unfolding t1 t2 using m by (rule pd_DataFrame_mset)
  show "\<exists>sched t. submit k sched jobs = Some (Inr t)" if "0 < k"
    using submit_one_by_one [OF that] by blast
  show "\<exists>t. sequential_submit jobs = Inr t \<and> mset (rows t) = mset (rows t1)"
    if h: "jobs \<noteq> [] \<and> list_all numeric_frame jobs
            \<and> list_all (\<lambda>df. wf_frame df \<and> columns df = cs) jobs"
  proof -
    from h have q: "sequential_submit jobs = Inr \<lparr>columns = cs, rows = concat (map job_result jobs)\<rparr>"
      by (intro sequential_submit_common) simp_all
    from h have "list_all (\<lambda>df. wf_frame df \<and> length (columns df) = length cs) jobs"
      by (auto simp: list_all_iff)
    then have "list_all (\<lambda>r. length r = length cs) (results s1)"
      using job_results_width [of "length cs" jobs "completed s1"] run_completed [OF s1]
        run_accumulator [OF s1(1)] by simp
    then have "rows t1 = results s1" by (simp add: t1 pd_DataFrame_uniform)
    with m1 q show ?thesis by simp
  qed
qed

text \<open>
  C4 amended, at two jobs run by two workers out of order, by one worker, and serially.
\<close>

theorem worker_count_irrelevant_witness:
  "submit 2 [Take, Take, Finish 1, Finish 0]
     [\<lparr>columns = [Name ''a''], rows = [[FloatC 1]]\<rparr>,
      \<lparr>columns = [Name ''a''], rows = [[IntC 2]]\<rparr>]
   = Some (Inr \<lparr>columns = [Pos 0], rows = [[FloatC 2], [FloatC 1]]\<rparr>)
   \<and> submit 1 [Take, Finish 0, Take, Finish 0]
     [\<lparr>columns = [Name ''a''], rows = [[FloatC 1]]\<rparr>,
      \<lparr>columns = [Name ''a''], rows = [[IntC 2]]\<rparr>]
   = Some (Inr \<lparr>columns = [Pos 0], rows = [[FloatC 1], [FloatC 2]]\<rparr>)
   \<and> mset [[FloatC 2], [FloatC 1]] = mset [[FloatC 1], [FloatC 2]]
   \<and> sequential_submit
     [\<lparr>columns = [Name ''a''], rows = [[FloatC 1]]\<rparr>,
      \<lparr>columns = [Name ''a''], rows = [[IntC 2]]\<rparr>]
   = Inr \<lparr>columns = [Name ''a''], rows = [[FloatC 1], [FloatC 2]]\<rparr>"
proof -
  let ?jobs = "[\<lparr>columns = [Name ''a''], rows = [[FloatC 1]]\<rparr>,
                \<lparr>columns = [Name ''a''], rows = [[IntC 2]]\<rparr>]"
  have one: "submit 1 [Take, Finish 0, Take, Finish 0] ?jobs
             = Some (Inr \<lparr>columns = [Pos 0], rows = [[FloatC 1], [FloatC 2]]\<rparr>)"
    by (simp add: submit_def apply_async_all_def processData_numeric numeric_frame_def
        on_completion_def collect_results_def joined_def pd_DataFrame_def float64_of_int_exact)
  have h: "?jobs \<noteq> [] \<and> list_all numeric_frame ?jobs
            \<and> list_all (\<lambda>df. wf_frame df \<and> columns df = [Name ''a'']) ?jobs"
    by (simp add: numeric_frame_def wf_frame_def)
  from worker_count_irrelevant [OF example_submit one, of 1 "[Name ''a'']"] h
  have m: "mset (rows \<lparr>columns = [Pos 0], rows = [[FloatC 2], [FloatC 1]]\<rparr>)
         = mset (rows \<lparr>columns = [Pos 0], rows = [[FloatC 1], [FloatC 2]]\<rparr>)"
    by blast
  have "sequential_submit ?jobs = Inr \<lparr>columns = [Name ''a''], rows = [[FloatC 1], [FloatC 2]]\<rparr>"
    using h by (simp add: sequential_submit_common [of ?jobs "[Name ''a'']"] example_job_results)
  with m one example_submit show ?thesis by simp
qed

text \<open>
  C6 fails: on the empty list of jobs the parallel path returns the table of
  \<open>pd.DataFrame([])\<close>, which has no row and no column either, so it does not carry the
  five columns of the input table.
\<close>

theorem submit_empty_counterexample:
  "submit 8 [] [] = Some (Inr \<lparr>columns = [], rows = []\<rparr>)
   \<and> shape \<lparr>columns = [], rows = []\<rparr> = (0, 0)
   \<and> columns \<lparr>columns = [], rows = []\<rparr>
       \<noteq> columns (read_csv ([''Type'', ''PW'', ''PL'', ''SW'', ''SL''], []))"
  by (simp add: submit_def apply_async_all_def joined_def pd_DataFrame_def shape_def read_csv_def)

text \<open>
  C6, amended. For every number of workers \<open>k \<ge> 1\<close>, \<open>submit\<close> on the empty list of
  jobs returns the empty table of shape \<open>(0, 0)\<close>: zero rows and zero columns. This is
  the result of every execution.
\<close>

theorem submit_empty_table:
  assumes "0 < k"
  shows "submit k [] [] = Some (Inr \<lparr>columns = [], rows = []\<rparr>)
       \<and> (\<forall>sched r. submit k sched [] = Some r \<longrightarrow> r = Inr \<lparr>columns = [], rows = []\<rparr>)
       \<and> shape \<lparr>columns = [], rows = []\<rparr> = (0, 0)"
proof (intro conjI allI impI)
  show "submit k [] [] = Some (Inr \<lparr>columns = [], rows = []\<rparr>)"
    using assms by (simp add: submit_def apply_async_all_def joined_def pd_DataFrame_def)
  show "shape \<lparr>columns = [], rows = []\<rparr> = (0, 0)"
    by (simp add: shape_def)
  fix sched r
  assume "submit k sched [] = Some r"
  with assms obtain s where s: "run k sched (apply_async_all []) = Some s"
    and r: "r = Inr (pd_DataFrame (results s))" by (rule submit_positive)
  from s have "s = apply_async_all []" by (rule run_empty_pool)
  then show "r = Inr \<lparr>columns = [], rows = []\<rparr>"
    by (simp add: r apply_async_all_def pd_DataFrame_def)
qed

text \<open>
  C6 amended, at eight workers.
\<close>

theorem submit_empty_table_witness:
  "(0::nat) < 8 \<and> submit 8 [] [] = Some (Inr \<lparr>columns = [], rows = []\<rparr>)
   \<and> shape \<lparr>columns = [], rows = []\<rparr> = (0, 0)"
  using submit_empty_table [of 8] by simp

text \<open>
  C1 fails on the parallel path: of ten one-row jobs the fifth raises \<open>TypeError\<close>, and
  \<open>submit\<close> with eight workers returns a table with the nine rows of the other jobs.
\<close>

theorem failure_counterexample:
  "processData \<lparr>columns = [Name ''a''], rows = [[StrC ''x'']]\<rparr> = Inl TypeError
   \<and> submit 8 (one_by_one 10)
       (replicate 4 \<lparr>columns = [Name ''a''], rows = [[FloatC 1]]\<rparr>
        @ [\<lparr>columns = [Name ''a''], rows = [[StrC ''x'']]\<rparr>]
        @ replicate 5 \<lparr>columns = [Name ''a''], rows = [[FloatC 1]]\<rparr>)
     = Some (Inr \<lparr>columns = [Pos 0], rows = replicate 9 [FloatC 1]\<rparr>)"
proof -
  let ?good = "\<lparr>columns = [Name ''a''], rows = [[FloatC 1]]\<rparr>"
  let ?bad = "\<lparr>columns = [Name ''a''], rows = [[StrC ''x'']]\<rparr>"
  let ?jobs = "replicate 4 ?good @ [?bad] @ replicate 5 ?good"
  have l: "length ?jobs = 10" by simp
  have c: "concat (map job_result ?jobs) = replicate 9 [FloatC 1]"
    by (simp add: example_job_results eval_nat_numeral)
  have u: "list_all (\<lambda>r. length r = 1) (replicate 9 [FloatC 1])"
    by (simp add: list_all_iff)
  have "submit 8 (one_by_one (length ?jobs)) ?jobs
        = Some (Inr (pd_DataFrame (concat (map job_result ?jobs))))"
    by (rule submit_one_by_one) simp
  then have "submit 8 (one_by_one 10) ?jobs = Some (Inr (pd_DataFrame (replicate 9 [FloatC 1])))"
    unfolding l c .
  moreover have "pd_DataFrame (replicate 9 [FloatC 1])
                 = \<lparr>columns = [Pos 0], rows = replicate 9 [FloatC 1]\<rparr>"
    unfolding pd_DataFrame_uniform [OF u] by simp
  moreover have "processData ?bad = Inl TypeError"
    by (simp add: processData_string numeric_frame_def)
  ultimately show ?thesis by simp
qed

text \<open>
  C1, amended. When \<open>processData\<close> raises on at least one of the jobs, the serial path
  fails as a whole with that error and returns no table. The parallel path, with at
  least one worker, does not fail: it has an execution, and every execution returns a
  table, whose rows are as many as the rows of the jobs on which \<open>processData\<close>
  did not raise.
\<close>

theorem failure_semantics:
  assumes "df \<in> set jobs" and "processData df = Inl e" and "0 < k"
  shows "sequential_submit jobs = Inl TypeError
       \<and> (\<exists>sched t. submit k sched jobs = Some (Inr t))
       \<and> (\<forall>sched r. submit k sched jobs = Some r \<longrightarrow>
            (\<exists>t. r = Inr t
               \<and> length (rows t) = (\<Sum>j\<leftarrow>filter numeric_frame jobs. length (rows j))))"
proof (intro conjI allI impI)
  from assms(1,2) have "\<not> list_all numeric_frame jobs"
    by (auto simp: list_all_iff dest: processData_raises)
  then show "sequential_submit jobs = Inl TypeError"
    by (rule sequential_submit_string)
  show "\<exists>sched t. submit k sched jobs = Some (Inr t)"
    using submit_one_by_one [OF assms(3)] by blast
  fix sched r
  assume "submit k sched jobs = Some r"
  with assms(3) obtain s where s: "run k sched (apply_async_all jobs) = Some s" "joined s"
    and r: "r = Inr (pd_DataFrame (results s))" by (rule submit_positive)
  have "mset (results s) = mset (concat (map job_result jobs))"
    using s by (rule joined_results_mset)
  then have "length (results s) = length (concat (map job_result jobs))"
    by (rule mset_eq_length)
  then have "length (rows (pd_DataFrame (results s)))
             = (\<Sum>j\<leftarrow>filter numeric_frame jobs. length (rows j))"
    by (simp add: length_rows_pd_DataFrame length_concat comp_def job_result_lengths)
  with r show "\<exists>t. r = Inr t
      \<and> length (rows t) = (\<Sum>j\<leftarrow>filter numeric_frame jobs. length (rows j))"
    by simp
qed

text \<open>
  C1 amended, at a job list whose second job holds a string.
\<close>

theorem failure_semantics_witness:
  "\<lparr>columns = [Name ''a''], rows = [[StrC ''x'']]\<rparr>
     \<in> set [\<lparr>columns = [Name ''a''], rows = [[FloatC 1]]\<rparr>,
            \<lparr>columns = [Name ''a''], rows = [[StrC ''x'']]\<rparr>]
   \<and> processData \<lparr>columns = [Name ''a''], rows = [[StrC ''x'']]\<rparr> = Inl TypeError
   \<and> sequential_submit [\<lparr>columns = [Name ''a''], rows = [[FloatC 1]]\<rparr>,
                          \<lparr>columns = [Name ''a''], rows = [[StrC ''x'']]\<rparr>] = Inl TypeError"
proof -
  let ?bad = "\<lparr>columns = [Name ''a''], rows = [[StrC ''x'']]\<rparr>"
  let ?jobs = "[\<lparr>columns = [Name ''a''], rows = [[FloatC 1]]\<rparr>, ?bad]"
  have m: "?bad \<in> set ?jobs" by simp
  have p: "processData ?bad = Inl TypeError"
    by (simp add: processData_string numeric_frame_def)
  have k: "(0::nat) < 8" by simp
  from failure_semantics [OF m p k] have "sequential_submit ?jobs = Inl TypeError" by blast
  with m p show ?thesis by blast
qed

text \<open>
  C2. Let \<open>df\<close> be a well-formed numeric table with 150 rows and 5 columns, and the
  workload ten jobs on \<open>df\<close>. With eight workers the parallel main block has an
  execution, and every execution returns a table of shape \<open>(1500, 5)\<close>. The serial path
  returns a table of shape \<open>(1500, 5)\<close> whose rows are the results of the ten jobs one
  after the other, in the order of submission. The result of a job has 150 rows of 5
  cells, and the values of \<open>df\<close> when the integers of \<open>df\<close> are at most \<open>2^53\<close> in
  absolute value.
\<close>

theorem workload_shape:
  assumes "wf_frame df" and "numeric_frame df"
    and "length (rows df) = 150" and "length (columns df) = 5"
  shows "(\<exists>sched t. parallel_main 8 sched df = Some (Inr t))
       \<and> (\<forall>sched r. parallel_main 8 sched df = Some r \<longrightarrow>
            (\<exists>t. r = Inr t \<and> shape t = (1500, 5)))
       \<and> (\<exists>t. sequential_submit (replicate 10 df) = Inr t \<and> shape t = (1500, 5)
              \<and> rows t = concat (replicate 10 (job_result df)))
       \<and> length (job_result df) = 150
       \<and> list_all (\<lambda>r. length r = 5) (job_result df)
       \<and> (exact_frame df \<longrightarrow>
            map (map cell_value) (job_result df) = map (map cell_value) (rows df))"
proof (intro conjI allI impI)
  have k: "(0::nat) < 8" by simp
  have jr: "job_result df = map (map to_float) (rows df)"
    using assms(2) by (rule job_result_numeric)
  have len: "length (concat (replicate 10 (job_result df))) = 1500"
    by (simp add: length_concat jr assms(3) sum_list_replicate)
  have wfs: "list_all (\<lambda>j. wf_frame j \<and> columns j = columns df) (replicate 10 df)"
    using assms(1) by (simp add: list_all_iff)
  have nums: "list_all numeric_frame (replicate 10 df)"
    using assms(2) by (simp add: list_all_iff)
  show "\<exists>sched t. parallel_main 8 sched df = Some (Inr t)"
    unfolding parallel_main_def using submit_one_by_one [OF k] by blast
  show "map (map cell_value) (job_result df) = map (map cell_value) (rows df)"
    if "exact_frame df"
    using that by (auto simp: jr exact_frame_def list_all_iff cell_value_to_float)
  show "length (job_result df) = 150"
    by (simp add: jr assms(3))
  show "list_all (\<lambda>r. length r = 5) (job_result df)"
    using assms(1,4) by (rule job_result_width)
  have "sequential_submit (replicate 10 df)
        = Inr \<lparr>columns = columns df, rows = concat (map job_result (replicate 10 df))\<rparr>"
    using wfs nums by (intro sequential_submit_common) simp_all
  then show "\<exists>t. sequential_submit (replicate 10 df) = Inr t \<and> shape t = (1500, 5)
              \<and> rows t = concat (replicate 10 (job_result df))"
    using len by (simp add: shape_def assms(4))
  fix sched r
  assume "parallel_main 8 sched df = Some r"
  then have "submit 8 sched (replicate 10 df) = Some r" by (simp add: parallel_main_def)
  with k obtain s where s: "run 8 sched (apply_async_all (replicate 10 df)) = Some s" "joined s"
    and r: "r = Inr (pd_DataFrame (results s))" by (rule submit_positive)
  have m: "mset (results s) = mset (concat (map job_result (replicate 10 df)))"
    using s by (rule joined_results_mset)
  then have "length (results s) = length (concat (map job_result (replicate 10 df)))"
    by (rule mset_eq_length)
  with len have l: "length (results s) = 1500" by simp
  have "list_all (\<lambda>j. wf_frame j \<and> length (columns j) = 5) (replicate 10 df)"
    using assms(1,4) by (simp add: list_all_iff)
  then have "list_all (\<lambda>r. length r = 5) (results s)"
    using job_results_width [of 5 "replicate 10 df" "completed s"] run_completed [OF s]
      run_accumulator [OF s(1)] by simp
  then have "pd_DataFrame (results s)
             = \<lparr>columns = map Pos [0..<(if results s = [] then 0 else 5)], rows = results s\<rparr>"
    by (rule pd_DataFrame_uniform)
  moreover from l have "results s \<noteq> []" by auto
  ultimately have "shape (pd_DataFrame (results s)) = (1500, 5)"
    using l by (simp add: shape_def)
  with r show "\<exists>t. r = Inr t \<and> shape t = (1500, 5)" by simp
qed

text \<open>
  C2, at a table of 150 equal rows under five column names.
\<close>

theorem workload_shape_witness:
  "wf_frame \<lparr>columns = map Name [''Type'', ''PW'', ''PL'', ''SW'', ''SL''],
             rows = replicate 150 [IntC 0, IntC 2, IntC 14, IntC 33, IntC 50]\<rparr>
   \<and> numeric_frame \<lparr>columns = map Name [''Type'', ''PW'', ''PL'', ''SW'', ''SL''],
             rows = replicate 150 [IntC 0, IntC 2, IntC 14, IntC 33, IntC 50]\<rparr>
   \<and> (\<exists>sched t. parallel_main 8 sched
          \<lparr>columns = map Name [''Type'', ''PW'', ''PL'', ''SW'', ''SL''],
           rows = replicate 150 [IntC 0, IntC 2, IntC 14, IntC 33, IntC 50]\<rparr> = Some (Inr t)
          \<and> shape t = (1500, 5))
   \<and> (\<exists>t. sequential_submit (replicate 10
          \<lparr>columns = map Name [''Type'', ''PW'', ''PL'', ''SW'', ''SL''],
           rows = replicate 150 [IntC 0, IntC 2, IntC 14, IntC 33, IntC 50]\<rparr>) = Inr t
          \<and> shape t = (1500, 5))"
proof -
  let ?df = "\<lparr>columns = map Name [''Type'', ''PW'', ''PL'', ''SW'', ''SL''],
              rows = replicate 150 [IntC 0, IntC 2, IntC 14, IntC 33, IntC 50]\<rparr>"
  have w: "wf_frame ?df" by (simp add: wf_frame_def list_all_iff)
  have n: "numeric_frame ?df" by (simp add: numeric_frame_def list_all_iff)
  have r: "length (rows ?df) = 150" by simp
  have c: "length (columns ?df) = 5" by simp
  note h = workload_shape [OF w n r c]
  from h obtain sched t where p: "parallel_main 8 sched ?df = Some (Inr t)" by blast
  with h have "shape t = (1500, 5)" by blast
  with p have "\<exists>sched t. parallel_main 8 sched ?df = Some (Inr t) \<and> shape t = (1500, 5)"
    by blast
  moreover from h have "\<exists>t. sequential_submit (replicate 10 ?df) = Inr t \<and> shape t = (1500, 5)"
    by blast
  ultimately show ?thesis using w n by blast
qed




text \<open>
  C7. The serial cell computes the same outcome from any two states of the global
  variables, so also from the state that an earlier run of the cell has left: when a
  run ends in the state \<open>g1\<close>, a second run from \<open>g1\<close> ends in \<open>g1\<close> again, with the
  same table \<open>final\<close>, row for row.
\<close>

theorem serial_cell_deterministic:
  "serial_cell n payload g = serial_cell n payload g'
   \<and> (\<forall>g1. serial_cell n payload g = Inr g1 \<longrightarrow> serial_cell n payload g1 = Inr g1)"
proof (intro conjI allI impI)
  show "serial_cell n payload g = serial_cell n payload g'"
    by (simp only: serial_cell_eq)
  fix g1
  assume "serial_cell n payload g = Inr g1"
  then show "serial_cell n payload g1 = Inr g1"
    by (simp only: serial_cell_eq)
qed

text \<open>
  C7, at a table of two rows processed twice: the second run of the cell leaves the
  state of the first.
\<close>

theorem serial_cell_deterministic_witness:
  "serial_cell 2 ([''a''], [[IntC 1], [FloatC 2]])
     \<lparr>nb_df = \<lparr>columns = [], rows = []\<rparr>, nb_results = [], nb_final = None\<rparr>
   = Inr \<lparr>nb_df = \<lparr>columns = [Name ''a''], rows = [[IntC 1], [FloatC 2]]\<rparr>,
          nb_results = [\<lparr>columns = [Name ''a''], rows = [[FloatC 1], [FloatC 2]]\<rparr>,
                        \<lparr>columns = [Name ''a''], rows = [[FloatC 1], [FloatC 2]]\<rparr>],
          nb_final = Some \<lparr>columns = [Name ''a''],
                            rows = [[FloatC 1], [FloatC 2], [FloatC 1], [FloatC 2]]\<rparr>\<rparr>
   \<and> serial_cell 2 ([''a''], [[IntC 1], [FloatC 2]])
     \<lparr>nb_df = \<lparr>columns = [Name ''a''], rows = [[IntC 1], [FloatC 2]]\<rparr>,
          nb_results = [\<lparr>columns = [Name ''a''], rows = [[FloatC 1], [FloatC 2]]\<rparr>,
                        \<lparr>columns = [Name ''a''], rows = [[FloatC 1], [FloatC 2]]\<rparr>],
          nb_final = Some \<lparr>columns = [Name ''a''],
                            rows = [[FloatC 1], [FloatC 2], [FloatC 1], [FloatC 2]]\<rparr>\<rparr>
   = Inr \<lparr>nb_df = \<lparr>columns = [Name ''a''], rows = [[IntC 1], [FloatC 2]]\<rparr>,
          nb_results = [\<lparr>columns = [Name ''a''], rows = [[FloatC 1], [FloatC 2]]\<rparr>,
                        \<lparr>columns = [Name ''a''], rows = [[FloatC 1], [FloatC 2]]\<rparr>],
          nb_final = Some \<lparr>columns = [Name ''a''],
                            rows = [[FloatC 1], [FloatC 2], [FloatC 1], [FloatC 2]]\<rparr>\<rparr>"
proof -
  let ?p = "([''a''], [[IntC 1], [FloatC 2]])"
  let ?g0 = "\<lparr>nb_df = \<lparr>columns = [], rows = []\<rparr>, nb_results = [], nb_final = None\<rparr>"
  let ?g1 = "\<lparr>nb_df = \<lparr>columns = [Name ''a''], rows = [[IntC 1], [FloatC 2]]\<rparr>,
          nb_results = [\<lparr>columns = [Name ''a''], rows = [[FloatC 1], [FloatC 2]]\<rparr>,
                        \<lparr>columns = [Name ''a''], rows = [[FloatC 1], [FloatC 2]]\<rparr>],
          nb_final = Some \<lparr>columns = [Name ''a''],
                            rows = [[FloatC 1], [FloatC 2], [FloatC 1], [FloatC 2]]\<rparr>\<rparr>"
  have d: "read_csv ?p = \<lparr>columns = [Name ''a''], rows = [[IntC 1], [FloatC 2]]\<rparr>"
    by (simp add: read_csv_def)
  have n: "list_all numeric_frame (replicate 2 (read_csv ?p))"
    by (simp add: d numeric_frame_def list_all_iff)
  have l: "serial_loop (replicate 2 (read_csv ?p)) []
           = Inr [\<lparr>columns = [Name ''a''], rows = [[FloatC 1], [FloatC 2]]\<rparr>,
                  \<lparr>columns = [Name ''a''], rows = [[FloatC 1], [FloatC 2]]\<rparr>]"
    unfolding serial_loop_numeric [OF n] by (simp add: d numeral_2_eq_2 float64_of_int_exact)
  have c: "pd_concat [\<lparr>columns = [Name ''a''], rows = [[FloatC 1], [FloatC 2]]\<rparr>,
                      \<lparr>columns = [Name ''a''], rows = [[FloatC 1], [FloatC 2]]\<rparr>]
           = Inr \<lparr>columns = [Name ''a''],
                  rows = [[FloatC 1], [FloatC 2], [FloatC 1], [FloatC 2]]\<rparr>"
    by (simp add: pd_concat_def union_labels_def reindex_def)
  have first: "serial_cell 2 ?p ?g0 = Inr ?g1"
    unfolding serial_cell_eq l by (simp add: c d)
  from serial_cell_deterministic [of 2 ?p ?g0] first
  have "serial_cell 2 ?p ?g1 = Inr ?g1" by blast
  with first show ?thesis by simp
qed

end
